theory Spec2Isabelle
  imports Main
begin

section \<open>Values, cards and exceptions\<close>

text \<open>
  The editing core of \<^verbatim>\<open>tools/core.py\<close> works on the list that the YAML loader returns:
  a Python list of ordered mappings (the cards), whose values are plain strings, literal
  block strings, booleans, and sequences of such scalars. Strings are lists of characters;
  a character of the model is a code point below 256.

  Python mutates the list and the cards in place. The model passes the list explicitly:
  every operation takes the card list and returns its result together with the list as it
  is after the call. A raised exception is the \<open>Inl\<close> result. The positions of a card list
  hold separate card objects (as a freshly loaded file without YAML aliases gives, and as
  \<^verbatim>\<open>add_card\<close> creates), so a card is a value of the list.
\<close>

datatype scalar = Str string | Literal string | Bool bool

datatype yvalue = Scalar scalar | Seq "scalar list"

type_synonym card = "(string \<times> yvalue) list"

datatype exn =
    IndexError string
  | CalledProcessError int "string list" "string option" "string option"
  | OSError string

subsection \<open>Python's \<^verbatim>\<open>str\<close> of an integer\<close>

definition digit_char :: "nat \<Rightarrow> char" where
  "digit_char d = char_of (48 + d)"

function str_nat :: "nat \<Rightarrow> string" where
  "str_nat n = (if n < 10 then [digit_char n] else str_nat (n div 10) @ [digit_char (n mod 10)])"
  by pat_completeness auto
termination
  by (relation "measure (\<lambda>n. n)") auto

declare str_nat.simps [simp del]

definition str_int :: "int \<Rightarrow> string" where
  "str_int i = (if i < 0 then CHR ''-'' # str_nat (nat (- i)) else str_nat (nat i))"

subsection \<open>The ordered mapping\<close>

text \<open>
  \<^verbatim>\<open>card[k] = v\<close> on an ordered mapping keeps the position of a key that is present and
  appends a new key at the end; \<^verbatim>\<open>k in card\<close>, \<^verbatim>\<open>del card[k]\<close> and \<^verbatim>\<open>card.get(k)\<close>
  are membership, removal and lookup.
\<close>

fun setitem :: "string \<Rightarrow> yvalue \<Rightarrow> card \<Rightarrow> card" where
  "setitem k v [] = [(k, v)]"
| "setitem k v ((k', v') # kvs) =
     (if k' = k then (k, v) # kvs else (k', v') # setitem k v kvs)"

definition contains :: "card \<Rightarrow> string \<Rightarrow> bool" where
  "contains c k = (k \<in> fst ` set c)"

definition delitem :: "string \<Rightarrow> card \<Rightarrow> card" where
  "delitem k c = filter (\<lambda>kv. fst kv \<noteq> k) c"

definition getitem :: "card \<Rightarrow> string \<Rightarrow> yvalue option" where
  "getitem c k = map_of c k"

subsection \<open>Python's \<^verbatim>\<open>list.pop\<close> and \<^verbatim>\<open>list.insert\<close>\<close>

text \<open>
  A negative index counts from the end. \<^verbatim>\<open>pop\<close> raises outside the list;
  \<^verbatim>\<open>insert\<close> clamps its index into \<open>[0, len]\<close>.
\<close>

definition list_pop :: "'a list \<Rightarrow> int \<Rightarrow> (exn + 'a) \<times> 'a list" where
  "list_pop xs i =
     (let n = int (length xs); j = (if i < 0 then i + n else i)
      in if xs = [] then (Inl (IndexError ''pop from empty list''), xs)
         else if 0 \<le> j \<and> j < n
         then (Inr (xs ! nat j), take (nat j) xs @ drop (Suc (nat j)) xs)
         else (Inl (IndexError ''pop index out of range''), xs))"

definition list_insert :: "'a list \<Rightarrow> int \<Rightarrow> 'a \<Rightarrow> 'a list" where
  "list_insert xs i x =
     (let n = int (length xs);
          j = (if i < 0 then i + n else i);
          j = (if j < 0 then 0 else if n < j then n else j)
      in take (nat j) xs @ x # drop (nat j) xs)"

section \<open>Card operations\<close>

definition add_card ::
  "card list \<Rightarrow> string \<Rightarrow> string \<Rightarrow> string \<Rightarrow> bool \<Rightarrow> bool \<Rightarrow> card \<times> card list" where
  "add_card cards logo title content center partition' =
     (let card = [];
          card = (if logo \<noteq> [] then setitem ''logo'' (Scalar (Str logo)) card else card);
          card = (if center then setitem ''center'' (Scalar (Bool True)) card else card);
          card = (if partition' then setitem ''partition'' (Scalar (Bool True)) card else card);
          card = (if title \<noteq> [] then setitem ''title'' (Scalar (Str title)) card else card);
          card = (if content \<noteq> [] then setitem ''content'' (Seq [Literal content]) card
                  else setitem ''content'' (Seq [Literal '''']) card)
      in (card, cards @ [card]))"

definition remove_card :: "card list \<Rightarrow> int \<Rightarrow> (exn + card) \<times> card list" where
  "remove_card cards index =
     (if 0 \<le> index \<and> index < int (length cards) then list_pop cards index
      else (Inl (IndexError (''Card index '' @ str_int index @ '' out of range (0-''
                   @ str_int (int (length cards) - 1) @ '')'')), cards))"

definition reorder_card :: "card list \<Rightarrow> int \<Rightarrow> int \<Rightarrow> (exn + unit) \<times> card list" where
  "reorder_card cards from_idx to_idx =
     (if \<not> (0 \<le> from_idx \<and> from_idx < int (length cards))
      then (Inl (IndexError (''from index '' @ str_int from_idx @ '' out of range'')), cards)
      else if \<not> (0 \<le> to_idx \<and> to_idx < int (length cards))
      then (Inl (IndexError (''to index '' @ str_int to_idx @ '' out of range'')), cards)
      else (case list_pop cards from_idx of
              (Inl e, cards1) \<Rightarrow> (Inl e, cards1)
            | (Inr moved, cards1) \<Rightarrow> (Inr (), list_insert cards1 to_idx moved)))"

text \<open>
  In \<^verbatim>\<open>update_card\<close> an absent parameter is Python's \<^verbatim>\<open>None\<close>. The card read at
  \<^verbatim>\<open>cards[index]\<close> is changed in place, so the list afterwards holds the changed card at
  the same position.
\<close>

definition update_card ::
  "card list \<Rightarrow> int \<Rightarrow> string option \<Rightarrow> string option \<Rightarrow> string option \<Rightarrow> bool option
     \<Rightarrow> bool option \<Rightarrow> (exn + unit) \<times> card list" where
  "update_card cards index logo title content center partition' =
     (if \<not> (0 \<le> index \<and> index < int (length cards))
      then (Inl (IndexError (''Card index '' @ str_int index @ '' out of range'')), cards)
      else
        let card = cards ! nat index;
            card = (case logo of None \<Rightarrow> card
                    | Some l \<Rightarrow> setitem ''logo'' (Scalar (Str l)) card);
            card = (case title of None \<Rightarrow> card
                    | Some t \<Rightarrow>
                        if t \<noteq> [] then setitem ''title'' (Scalar (Str t)) card
                        else if contains card ''title'' then delitem ''title'' card
                        else card);
            card = (case content of None \<Rightarrow> card
                    | Some c \<Rightarrow> setitem ''content'' (Seq [Literal c]) card);
            card = (case center of None \<Rightarrow> card
                    | Some b \<Rightarrow>
                        if b then setitem ''center'' (Scalar (Bool True)) card
                        else if contains card ''center'' then delitem ''center'' card
                        else card);
            card = (case partition' of None \<Rightarrow> card
                    | Some b \<Rightarrow>
                        if b then setitem ''partition'' (Scalar (Bool True)) card
                        else if contains card ''partition'' then delitem ''partition'' card
                        else card)
        in (Inr (), cards[nat index := card]))"

subsection \<open>Well-formed cards\<close>

text \<open>
  A card is well formed when it carries no false-valued \<^verbatim>\<open>center\<close> or \<^verbatim>\<open>partition\<close>
  key and its \<^verbatim>\<open>content\<close> is a sequence of exactly one literal block.
\<close>

definition card_ok :: "card \<Rightarrow> bool" where
  "card_ok c =
     (getitem c ''center'' \<noteq> Some (Scalar (Bool False)) \<and>
      getitem c ''partition'' \<noteq> Some (Scalar (Bool False)) \<and>
      (case getitem c ''content'' of Some (Seq [Literal s]) \<Rightarrow> True | _ \<Rightarrow> False))"

definition cards_ok :: "card list \<Rightarrow> bool" where
  "cards_ok cards = list_all card_ok cards"

subsection \<open>The steps of \<^verbatim>\<open>update_card\<close>\<close>

text \<open>
  The five field updates that \<^verbatim>\<open>update_card\<close> performs on the addressed card, one
  function per \<^verbatim>\<open>if\<close> block of the source, and their composition in the source's order.
  Lemma \<open>update_card_valid\<close> shows that \<^verbatim>\<open>update_card\<close> is this composition.
\<close>

definition upd_logo :: "string option \<Rightarrow> card \<Rightarrow> card" where
  "upd_logo logo c = (case logo of None \<Rightarrow> c | Some l \<Rightarrow> setitem ''logo'' (Scalar (Str l)) c)"

definition upd_title :: "string option \<Rightarrow> card \<Rightarrow> card" where
  "upd_title title c =
     (case title of None \<Rightarrow> c
      | Some t \<Rightarrow> if t \<noteq> [] then setitem ''title'' (Scalar (Str t)) c
                  else if contains c ''title'' then delitem ''title'' c else c)"

definition upd_content :: "string option \<Rightarrow> card \<Rightarrow> card" where
  "upd_content content c =
     (case content of None \<Rightarrow> c | Some s \<Rightarrow> setitem ''content'' (Seq [Literal s]) c)"

definition upd_flag :: "string \<Rightarrow> bool option \<Rightarrow> card \<Rightarrow> card" where
  "upd_flag k flag c =
     (case flag of None \<Rightarrow> c
      | Some b \<Rightarrow> if b then setitem k (Scalar (Bool True)) c
                  else if contains c k then delitem k c else c)"

definition updated :: "string option \<Rightarrow> string option \<Rightarrow> string option \<Rightarrow> bool option
     \<Rightarrow> bool option \<Rightarrow> card \<Rightarrow> card" where
  "updated logo title content center partition' c =
     upd_flag ''partition'' partition' (upd_flag ''center'' center
       (upd_content content (upd_title title (upd_logo logo c))))"

section \<open>Publishing\<close>

text \<open>
  \<^verbatim>\<open>git_publish\<close> runs three external commands with \<^verbatim>\<open>subprocess.run(args, cwd=cwd, check=True)\<close>.
  What a command does is given by an environment: from the commands executed so far, the
  argument list and the working directory it tells whether the command could be started
  and, if so, its exit status and what it printed. \<^verbatim>\<open>subprocess.run\<close> is called without
  any capture argument, so the command writes to the standard streams of the editor itself
  (the \<open>console\<close> of the world) and the completed process, like the raised
  \<^verbatim>\<open>CalledProcessError\<close>, carries \<^verbatim>\<open>None\<close> for output and error output. A command
  that cannot be started raises an \<^verbatim>\<open>OSError\<close>. The site root is a module constant of
  the source and a parameter here.
\<close>
datatype outcome = Exited int string | Not_started string

record world =
  executed :: "(string list \<times> string) list"
  console :: string

type_synonym environment = "(string list \<times> string) list \<Rightarrow> string list \<Rightarrow> string \<Rightarrow> outcome"

datatype completed = CompletedProcess "string list" int "string option" "string option"

definition subprocess_run ::
  "environment \<Rightarrow> string list \<Rightarrow> string \<Rightarrow> bool \<Rightarrow> world \<Rightarrow> (exn + completed) \<times> world" where
  "subprocess_run env args cwd check w =
     (case env (executed w) args cwd of
        Not_started reason \<Rightarrow> (Inl (OSError reason), w)
      | Exited code out \<Rightarrow>
          (let w' = w\<lparr>executed := executed w @ [(args, cwd)], console := console w @ out\<rparr>
           in if check \<and> code \<noteq> 0 then (Inl (CalledProcessError code args None None), w')
              else (Inr (CompletedProcess args code None None), w')))"

definition git_publish :: "environment \<Rightarrow> string \<Rightarrow> string \<Rightarrow> world \<Rightarrow> (exn + unit) \<times> world" where
  "git_publish env site_root message w =
     (let cwd = site_root in
      case subprocess_run env [''git'', ''add'', ''_data/cards.yml''] cwd True w of
        (Inl e, w1) \<Rightarrow> (Inl e, w1)
      | (Inr _, w1) \<Rightarrow>
          (case subprocess_run env [''git'', ''commit'', ''-m'', message] cwd True w1 of
             (Inl e, w2) \<Rightarrow> (Inl e, w2)
           | (Inr _, w2) \<Rightarrow>
               (case subprocess_run env [''git'', ''push''] cwd True w2 of
                  (Inl e, w3) \<Rightarrow> (Inl e, w3)
                | (Inr _, w3) \<Rightarrow> (Inr (), w3))))"

text \<open>
  The claim about publishing speaks of the failure that reaches the caller. In the words
  of the specification, the caller's error surfaces a failing step when it holds the
  step's command, its exit status and the output that the step printed.
\<close>

definition spec_surfaces_failure :: "exn + unit \<Rightarrow> string list \<Rightarrow> int \<Rightarrow> string \<Rightarrow> bool" where
  "spec_surfaces_failure r cmd status out =
     (case r of
        Inl (CalledProcessError n c output err) \<Rightarrow>
          n = status \<and> c = cmd \<and> (output = Some out \<or> err = Some out)
      | _ \<Rightarrow> False)"

section \<open>Content preview\<close>

text \<open>
  \<^verbatim>\<open>content_preview\<close> uses \<^verbatim>\<open>str.join\<close>, \<^verbatim>\<open>re.sub\<close> with the patterns \<^verbatim>\<open><[^>]+>\<close> and \<^verbatim>\<open>\s+\<close>,
  \<^verbatim>\<open>str.replace\<close>, \<^verbatim>\<open>str.strip\<close> and a slice. A match of \<^verbatim>\<open><[^>]+>\<close> at a \<^verbatim>\<open><\<close> takes every
  following character up to the next \<^verbatim>\<open>>\<close>; it needs at least one character in between and
  a closing \<^verbatim>\<open>>\<close>, otherwise the \<^verbatim>\<open><\<close> stays and the scan goes on with the next character.
  Whitespace is what \<^verbatim>\<open>str.isspace\<close> accepts below code point 256. \<^verbatim>\<open>text[:n]\<close> with a
  negative \<open>n\<close> drops the last \<open>-n\<close> characters.
\<close>
definition isspace :: "char \<Rightarrow> bool" where
  "isspace c = ((of_char c :: nat) \<in> set [9, 10, 11, 12, 13, 28, 29, 30, 31, 32, 133, 160])"



definition match_tag :: "string \<Rightarrow> string option" where
  "match_tag cs =
     (let body = takeWhile (\<lambda>c. c \<noteq> CHR ''>'') cs;
          rest = dropWhile (\<lambda>c. c \<noteq> CHR ''>'') cs
      in if body \<noteq> [] \<and> rest \<noteq> [] then Some (tl rest) else None)"

lemma match_tag_shorter: "match_tag cs = Some rest \<Longrightarrow> length rest \<le> length cs"
  using length_dropWhile_le[of "\<lambda>c. c \<noteq> CHR ''>''" cs]
  by (auto simp: match_tag_def Let_def split: if_splits)

function sub_tags :: "string \<Rightarrow> string" where
  "sub_tags [] = []"
| "sub_tags (c # cs) =
     (if c = CHR ''<'' then (case match_tag cs of Some rest \<Rightarrow> sub_tags rest
                                | None \<Rightarrow> c # sub_tags cs)
      else c # sub_tags cs)"
  by pat_completeness auto
termination
  by (relation "measure length") (auto dest: match_tag_shorter)



definition strip :: "string \<Rightarrow> string" where
  "strip s = rev (dropWhile isspace (rev (dropWhile isspace s)))"

function sub_spaces :: "string \<Rightarrow> string" where
  "sub_spaces [] = []"
| "sub_spaces (c # cs) =
     (if isspace c then CHR '' '' # sub_spaces (dropWhile isspace cs) else c # sub_spaces cs)"
  by pat_completeness auto
termination
  by (relation "measure length") (auto simp: less_Suc_eq_le length_dropWhile_le)



text \<open>
  \<^verbatim>\<open>str.rstrip\<close>, the second half of \<^verbatim>\<open>strip\<close>, is named for the proofs.
\<close>

definition rstrip :: "string \<Rightarrow> string" where
  "rstrip s = rev (dropWhile isspace (rev s))"

section \<open>Properties of the ordered mapping and of the list operations\<close>

lemma getitem_setitem:
  "getitem (setitem k v c) k' = (if k' = k then Some v else getitem c k')"
  by (induction c) (auto simp: getitem_def)

lemma getitem_delitem:
  "getitem (delitem k c) k' = (if k' = k then None else getitem c k')"
  by (induction c) (auto simp: getitem_def delitem_def)

lemma contains_getitem: "contains c k = (getitem c k \<noteq> None)"
  by (simp add: contains_def getitem_def map_of_eq_None_iff)


lemma keys_setitem: "fst ` set (setitem k v c) = insert k (fst ` set c)"
  by (induction c) force+

lemma distinct_delitem: "distinct (map fst c) \<Longrightarrow> distinct (map fst (delitem k c))"
  by (simp add: delitem_def distinct_map_filter)

lemma distinct_setitem: "distinct (map fst c) \<Longrightarrow> distinct (map fst (setitem k v c))"
  by (induction c) (auto simp: keys_setitem)

lemma list_pop_valid:
  "0 \<le> i \<Longrightarrow> i < int (length xs) \<Longrightarrow>
   list_pop xs i = (Inr (xs ! nat i), take (nat i) xs @ drop (Suc (nat i)) xs)"
  by (auto simp: list_pop_def Let_def)

lemma list_insert_valid:
  "0 \<le> i \<Longrightarrow> i \<le> int (length xs) \<Longrightarrow>
   list_insert xs i x = take (nat i) xs @ x # drop (nat i) xs"
  by (auto simp: list_insert_def Let_def)

lemma reorder_card_valid:
  assumes "0 \<le> from_idx" "from_idx < int (length cards)"
    and "0 \<le> to_idx" "to_idx < int (length cards)"
  shows "reorder_card cards from_idx to_idx =
    (Inr (), take (nat to_idx) (take (nat from_idx) cards @ drop (Suc (nat from_idx)) cards)
       @ cards ! nat from_idx
       # drop (nat to_idx) (take (nat from_idx) cards @ drop (Suc (nat from_idx)) cards))"
proof -
  have "to_idx \<le> int (length (take (nat from_idx) cards @ drop (Suc (nat from_idx)) cards))"
    using assms by auto
  then show ?thesis
    using assms by (simp add: reorder_card_def list_pop_valid list_insert_valid)
qed

lemma length_removed: "f < length xs \<Longrightarrow> length (take f xs @ drop (Suc f) xs) = length xs - 1"
  by auto

lemma nth_removed:
  assumes "f < length xs" "Suc j < length xs"
  shows "(take f xs @ drop (Suc f) xs) ! j = (if j < f then xs ! j else xs ! Suc j)"
proof (cases "j < f")
  case True
  then show ?thesis using assms by (simp add: nth_append)
next
  case False
  then have "Suc f + (j - f) = Suc j" by simp
  then show ?thesis using False assms by (simp add: nth_append min_def)
qed

lemma length_inserted: "length (take t ys @ x # drop t ys) = Suc (length ys)"
  by simp

lemma nth_inserted:
  assumes "t \<le> length ys" "k \<le> length ys"
  shows "(take t ys @ x # drop t ys) ! k =
    (if k = t then x else if k < t then ys ! k else ys ! (k - 1))"
proof -
  consider "k < t" | "k = t" | "t < k" by linarith
  then show ?thesis
  proof cases
    case 1
    then show ?thesis using assms by (simp add: nth_append)
  next
    case 2
    then show ?thesis using assms by (simp add: nth_append min_def)
  next
    case 3
    then obtain d where d: "k - t = Suc d" by (metis Suc_diff_Suc)
    then have "t + d = k - 1" using 3 by simp
    then show ?thesis using 3 d assms by (simp add: nth_append min_def)
  qed
qed

lemma insert_removed_nth:
  assumes "f < length xs" "t < length xs" "k < length xs"
  shows "(take t (take f xs @ drop (Suc f) xs) @ xs ! f # drop t (take f xs @ drop (Suc f) xs)) ! k =
    (if k = t then xs ! f
     else if (if k < t then k else k - 1) < f then xs ! (if k < t then k else k - 1)
     else xs ! Suc (if k < t then k else k - 1))"
proof -
  let ?ys = "take f xs @ drop (Suc f) xs"
  have len: "length ?ys = length xs - 1" using assms(1) by (rule length_removed)
  have "(take t ?ys @ xs ! f # drop t ?ys) ! k =
      (if k = t then xs ! f else if k < t then ?ys ! k else ?ys ! (k - 1))"
    by (rule nth_inserted) (use assms len in linarith)+
  moreover have "?ys ! k = (if k < f then xs ! k else xs ! Suc k)" if "k < t"
    by (rule nth_removed) (use assms that in linarith)+
  moreover have "?ys ! (k - 1) = (if k - 1 < f then xs ! (k - 1) else xs ! Suc (k - 1))" if "t < k"
    by (rule nth_removed) (use assms that in linarith)+
  ultimately show ?thesis by (cases "k < t") auto
qed

section \<open>Properties of \<^verbatim>\<open>update_card\<close> and of well-formed cards\<close>

lemma update_card_valid:
  assumes "0 \<le> index" "index < int (length cards)"
  shows "update_card cards index logo title content center partition' =
    (Inr (), cards[nat index := updated logo title content center partition' (cards ! nat index)])"
  using assms
  by (simp add: update_card_def Let_def updated_def upd_logo_def upd_title_def upd_content_def
      upd_flag_def)

lemma update_card_invalid:
  assumes "\<not> (0 \<le> index \<and> index < int (length cards))"
  shows "snd (update_card cards index logo title content center partition') = cards"
  using assms by (simp add: update_card_def)

lemma getitem_upd_logo: "k \<noteq> ''logo'' \<Longrightarrow> getitem (upd_logo logo c) k = getitem c k"
  by (simp add: upd_logo_def getitem_setitem split: option.splits)

lemma getitem_upd_title_other: "k \<noteq> ''title'' \<Longrightarrow> getitem (upd_title title c) k = getitem c k"
  by (simp add: upd_title_def getitem_setitem getitem_delitem split: option.splits)

lemma getitem_upd_title:
  "getitem (upd_title title c) ''title'' =
     (case title of None \<Rightarrow> getitem c ''title''
      | Some t \<Rightarrow> if t \<noteq> [] then Some (Scalar (Str t)) else None)"
  by (simp add: upd_title_def getitem_setitem getitem_delitem contains_getitem split: option.splits)

lemma getitem_upd_content_other:
  "k \<noteq> ''content'' \<Longrightarrow> getitem (upd_content content c) k = getitem c k"
  by (simp add: upd_content_def getitem_setitem split: option.splits)

lemma getitem_upd_content:
  "getitem (upd_content content c) ''content'' =
     (case content of None \<Rightarrow> getitem c ''content'' | Some s \<Rightarrow> Some (Seq [Literal s]))"
  by (simp add: upd_content_def getitem_setitem split: option.splits)

lemma getitem_upd_flag_other: "k' \<noteq> k \<Longrightarrow> getitem (upd_flag k flag c) k' = getitem c k'"
  by (simp add: upd_flag_def getitem_setitem getitem_delitem split: option.splits)

lemma getitem_upd_flag:
  "getitem (upd_flag k flag c) k =
     (case flag of None \<Rightarrow> getitem c k
      | Some b \<Rightarrow> if b then Some (Scalar (Bool True)) else None)"
  by (simp add: upd_flag_def getitem_setitem getitem_delitem contains_getitem split: option.splits)

lemma getitem_updated_title:
  "getitem (updated logo title content center partition' c) ''title'' =
     (case title of None \<Rightarrow> getitem c ''title''
      | Some t \<Rightarrow> if t \<noteq> [] then Some (Scalar (Str t)) else None)"
  by (simp add: updated_def getitem_upd_flag_other getitem_upd_content_other getitem_upd_title
      getitem_upd_logo cong: option.case_cong)

lemma card_ok_updated:
  assumes "card_ok c"
  shows "card_ok (updated logo title content center partition' c)"
proof -
  let ?c = "updated logo title content center partition' c"
  have "getitem ?c ''center'' \<noteq> Some (Scalar (Bool False))"
    using assms
    by (simp add: updated_def card_ok_def getitem_upd_flag_other getitem_upd_flag
        getitem_upd_content_other getitem_upd_title_other getitem_upd_logo split: option.splits)
  moreover have "getitem ?c ''partition'' \<noteq> Some (Scalar (Bool False))"
    using assms
    by (simp add: updated_def card_ok_def getitem_upd_flag_other getitem_upd_flag
        getitem_upd_content_other getitem_upd_title_other getitem_upd_logo split: option.splits)
  moreover have "getitem ?c ''content'' =
      (case content of None \<Rightarrow> getitem c ''content'' | Some s \<Rightarrow> Some (Seq [Literal s]))"
    by (simp add: updated_def getitem_upd_flag_other getitem_upd_content
        getitem_upd_title_other getitem_upd_logo cong: option.case_cong)
  ultimately show ?thesis
    using assms by (simp add: card_ok_def split: option.splits)
qed

lemma card_ok_new:
  "card_ok (fst (add_card cards logo title content center partition'))"
  by (simp add: add_card_def Let_def card_ok_def getitem_setitem getitem_def)

lemma list_all_take: "list_all P xs \<Longrightarrow> list_all P (take n xs)"
  by (metis append_take_drop_id list_all_append)

lemma list_all_drop: "list_all P xs \<Longrightarrow> list_all P (drop n xs)"
  by (metis append_take_drop_id list_all_append)

lemma list_all_update: "list_all P xs \<Longrightarrow> P x \<Longrightarrow> list_all P (xs[i := x])"
  by (induction xs arbitrary: i) (auto split: nat.splits)

lemma list_all_removed: "list_all P xs \<Longrightarrow> list_all P (take f xs @ drop (Suc f) xs)"
  by (simp add: list_all_take list_all_drop)

lemma list_all_inserted: "list_all P ys \<Longrightarrow> P x \<Longrightarrow> list_all P (take t ys @ x # drop t ys)"
  by (simp add: list_all_take list_all_drop)

lemma list_all_nth: "list_all P xs \<Longrightarrow> i < length xs \<Longrightarrow> P (xs ! i)"
  by (simp add: list_all_length)

lemma cards_ok_add_card:
  assumes "cards_ok cards"
  shows "cards_ok (snd (add_card cards logo title content center partition'))"
proof -
  have "snd (add_card cards logo title content center partition')
      = cards @ [fst (add_card cards logo title content center partition')]"
    by (simp add: add_card_def Let_def)
  then show ?thesis
    using assms card_ok_new[of cards logo title content center partition']
    by (simp add: cards_ok_def)
qed

lemma cards_ok_update_card:
  assumes "cards_ok cards"
  shows "cards_ok (snd (update_card cards index logo title content center partition'))"
proof (cases "0 \<le> index \<and> index < int (length cards)")
  case False
  then show ?thesis using assms by (simp add: update_card_invalid)
next
  case True
  then have "nat index < length cards" by auto
  then have "card_ok (cards ! nat index)"
    using assms unfolding cards_ok_def by (rule list_all_nth[rotated])
  then have "card_ok (updated logo title content center partition' (cards ! nat index))"
    by (rule card_ok_updated)
  then show ?thesis
    using assms True by (simp add: update_card_valid cards_ok_def list_all_update)
qed

lemma cards_ok_remove_card:
  assumes "cards_ok cards"
  shows "cards_ok (snd (remove_card cards index))"
proof (cases "0 \<le> index \<and> index < int (length cards)")
  case False
  then show ?thesis using assms by (auto simp: remove_card_def)
next
  case True
  then show ?thesis
    using assms list_all_removed[of card_ok cards "nat index"]
    by (simp add: remove_card_def list_pop_valid cards_ok_def del: list_all_append)
qed

lemma cards_ok_reorder_card:
  assumes "cards_ok cards"
  shows "cards_ok (snd (reorder_card cards from_idx to_idx))"
proof (cases "0 \<le> from_idx \<and> from_idx < int (length cards) \<and> 0 \<le> to_idx \<and> to_idx < int (length cards)")
  case False
  then show ?thesis using assms by (auto simp: reorder_card_def)
next
  case True
  then have "nat from_idx < length cards" by auto
  then have "card_ok (cards ! nat from_idx)"
    using assms unfolding cards_ok_def by (rule list_all_nth[rotated])
  moreover have "list_all card_ok (take (nat from_idx) cards @ drop (Suc (nat from_idx)) cards)"
    using assms unfolding cards_ok_def by (rule list_all_removed)
  ultimately have "list_all card_ok
     (take (nat to_idx) (take (nat from_idx) cards @ drop (Suc (nat from_idx)) cards)
       @ cards ! nat from_idx
       # drop (nat to_idx) (take (nat from_idx) cards @ drop (Suc (nat from_idx)) cards))"
    by (rule list_all_inserted[rotated])
  then show ?thesis
    using True by (simp add: reorder_card_valid cards_ok_def del: list_all_append take_append drop_append)
qed

section \<open>The claims about the card operations\<close>

text \<open>
  Claim C2. For indices valid against the original length, \<^verbatim>\<open>reorder_card\<close> succeeds and
  keeps the length; the moved card ends at position \<open>to_idx\<close>, and every other position
  \<open>k\<close> holds the card that the list without position \<open>from_idx\<close> has at \<open>k\<close>
  (before \<open>to_idx\<close>) or at \<open>k - 1\<close> (after it): pop, then insert into the shortened
  list. Moving position 0 to the last position puts the first card at the end, and moving a
  card to its own position changes nothing.
\<close>
theorem reorder_card_pop_then_insert:
  assumes "0 \<le> from_idx" "from_idx < int (length cards)"
    and "0 \<le> to_idx" "to_idx < int (length cards)"
    and "reorder_card cards from_idx to_idx = (r, cards')"
  shows "r = Inr () \<and> length cards' = length cards \<and>
    (\<forall>k < length cards. cards' ! k =
       (if k = nat to_idx then cards ! nat from_idx
        else if (if k < nat to_idx then k else k - 1) < nat from_idx
             then cards ! (if k < nat to_idx then k else k - 1)
             else cards ! Suc (if k < nat to_idx then k else k - 1))) \<and>
    (from_idx = 0 \<and> to_idx = int (length cards) - 1 \<longrightarrow> cards' = tl cards @ [hd cards]) \<and>
    (from_idx = to_idx \<longrightarrow> cards' = cards)"
proof -
  let ?f = "nat from_idx" and ?t = "nat to_idx"
  have f: "?f < length cards" and t: "?t < length cards" using assms by auto
  have eq: "cards' = take ?t (take ?f cards @ drop (Suc ?f) cards) @ cards ! ?f
       # drop ?t (take ?f cards @ drop (Suc ?f) cards)" and r: "r = Inr ()"
    using reorder_card_valid[OF assms(1-4)] assms(5) by auto
  have len: "length cards' = length cards"
    unfolding eq length_inserted length_removed[OF f] using f by simp
  have nth: "\<forall>k < length cards. cards' ! k =
       (if k = ?t then cards ! ?f
        else if (if k < ?t then k else k - 1) < ?f
             then cards ! (if k < ?t then k else k - 1)
             else cards ! Suc (if k < ?t then k else k - 1))"
    unfolding eq using insert_removed_nth[OF f t] by blast
  have first_last: "cards' = tl cards @ [hd cards]"
    if "from_idx = 0" "to_idx = int (length cards) - 1"
  proof -
    have "cards \<noteq> []" using f by auto
    moreover have "?t = length cards - 1" using that by auto
    ultimately show ?thesis
      unfolding eq using that(1) by (cases cards) (auto simp: drop_Suc)
  qed
  have same: "cards' = cards" if "from_idx = to_idx"
    unfolding eq using that f by (simp add: id_take_nth_drop[symmetric] Cons_nth_drop_Suc)
  show ?thesis using r len nth first_last same by blast
qed

theorem reorder_card_pop_then_insert_witness:
  "reorder_card [[(''logo'', Scalar (Str ''a''))], [(''logo'', Scalar (Str ''b''))],
                 [(''logo'', Scalar (Str ''c''))]] 0 2
     = (Inr (), [[(''logo'', Scalar (Str ''b''))], [(''logo'', Scalar (Str ''c''))],
                 [(''logo'', Scalar (Str ''a''))]]) \<and>
   snd (reorder_card [[(''logo'', Scalar (Str ''a''))], [(''logo'', Scalar (Str ''b''))],
                 [(''logo'', Scalar (Str ''c''))]] 1 1)
     = [[(''logo'', Scalar (Str ''a''))], [(''logo'', Scalar (Str ''b''))],
        [(''logo'', Scalar (Str ''c''))]]"
proof -
  let ?cards = "[[(''logo'', Scalar (Str ''a''))], [(''logo'', Scalar (Str ''b''))],
                 [(''logo'', Scalar (Str ''c''))]]"
  have "fst (reorder_card ?cards 0 2) = Inr () \<and>
      snd (reorder_card ?cards 0 2) = tl ?cards @ [hd ?cards]"
    using reorder_card_pop_then_insert[OF _ _ _ _ surjective_pairing, of 0 ?cards 2] by simp
  moreover have "snd (reorder_card ?cards 1 1) = ?cards"
    using reorder_card_pop_then_insert[OF _ _ _ _ surjective_pairing, of 1 ?cards 1] by simp
  ultimately show ?thesis by (simp add: prod_eq_iff)
qed

text \<open>
  Claim C3 says that \<^verbatim>\<open>update_card\<close> with an empty logo removes the \<open>logo\<close> key.
  The code stores the empty string instead: on a card with a logo, the call with
  \<^verbatim>\<open>logo=""\<close> returns a card that still has the key, now with the empty string as its value.
\<close>
theorem update_card_empty_logo_kept:
  "update_card [[(''logo'', Scalar (Str ''/assets/img/flower.svg'')), (''content'', Seq [Literal ''hi''])]]
     0 (Some '''') None None None None
   = (Inr (), [[(''logo'', Scalar (Str '''')), (''content'', Seq [Literal ''hi''])]])"
  by (simp add: update_card_def)

text \<open>
  Claim C4. For a valid index, \<^verbatim>\<open>update_card\<close> with an empty title leaves the addressed card
  without a \<open>title\<close> key, with a non-empty title it sets the key to that string, and
  with no title given the card's title is what it was.
\<close>
theorem update_card_title:
  assumes "0 \<le> index" "index < int (length cards)"
    and "update_card cards index logo title content center partition' = (r, cards')"
  shows "r = Inr () \<and>
    (title = Some [] \<longrightarrow> \<not> contains (cards' ! nat index) ''title'') \<and>
    (\<forall>t. title = Some t \<and> t \<noteq> [] \<longrightarrow>
       getitem (cards' ! nat index) ''title'' = Some (Scalar (Str t))) \<and>
    (title = None \<longrightarrow>
       getitem (cards' ! nat index) ''title'' = getitem (cards ! nat index) ''title'')"
proof -
  have "nat index < length cards" using assms(1,2) by auto
  moreover have "r = Inr ()"
    and "cards' = cards[nat index := updated logo title content center partition' (cards ! nat index)]"
    using update_card_valid[OF assms(1,2)] assms(3) by auto
  ultimately have "getitem (cards' ! nat index) ''title'' =
     (case title of None \<Rightarrow> getitem (cards ! nat index) ''title''
      | Some t \<Rightarrow> if t \<noteq> [] then Some (Scalar (Str t)) else None)"
    by (simp add: getitem_updated_title)
  then show ?thesis
    using \<open>r = Inr ()\<close> by (auto simp: contains_getitem)
qed

theorem update_card_title_witness:
  "update_card [[(''title'', Scalar (Str ''Old'')), (''content'', Seq [Literal ''x''])]]
      0 None (Some '''') None None None
     = (Inr (), [[(''content'', Seq [Literal ''x''])]]) \<and>
   \<not> contains ([[(''content'', Seq [Literal ''x''])]] ! nat 0) ''title'' \<and>
   getitem (snd (update_card [[(''title'', Scalar (Str ''Old'')), (''content'', Seq [Literal ''x''])]]
      0 None (Some ''New'') None None None) ! nat 0) ''title'' = Some (Scalar (Str ''New'')) \<and>
   getitem (snd (update_card [[(''title'', Scalar (Str ''Old'')), (''content'', Seq [Literal ''x''])]]
      0 (Some ''/a.svg'') None None None None) ! nat 0) ''title'' = Some (Scalar (Str ''Old''))"
proof -
  let ?cards = "[[(''title'', Scalar (Str ''Old'')), (''content'', Seq [Literal ''x''])]]"
  have v: "(0::int) \<le> 0" "0 < int (length ?cards)" by simp_all
  have e: "update_card ?cards 0 None (Some '''') None None None
      = (Inr (), [[(''content'', Seq [Literal ''x''])]])"
    by (simp add: update_card_def contains_def delitem_def)
  have a: "\<not> contains ([[(''content'', Seq [Literal ''x''])]] ! nat 0) ''title''"
    using update_card_title[OF v e] by simp
  have b: "getitem (snd (update_card ?cards 0 None (Some ''New'') None None None) ! nat 0) ''title''
      = Some (Scalar (Str ''New''))"
    using update_card_title[OF v surjective_pairing, of None "Some ''New''" None None None] by simp
  have c: "getitem (snd (update_card ?cards 0 (Some ''/a.svg'') None None None None) ! nat 0) ''title''
      = Some (Scalar (Str ''Old''))"
    using update_card_title[OF v surjective_pairing, of "Some ''/a.svg''" None None None None]
    by (simp add: getitem_def)
  show ?thesis using e a b c by blast
qed

text \<open>
  Claim C5. With an index that is negative or not below the length, \<^verbatim>\<open>update_card\<close> and
  \<^verbatim>\<open>remove_card\<close> raise \<^verbatim>\<open>IndexError\<close> and the list is as before; so does \<^verbatim>\<open>reorder_card\<close> when
  either of its two indices is such an index.
\<close>
theorem invalid_index_rejected:
  assumes "index < 0 \<or> int (length cards) \<le> index"
  shows "(\<exists>msg. update_card cards index logo title content center partition'
            = (Inl (IndexError msg), cards)) \<and>
    (\<exists>msg. remove_card cards index = (Inl (IndexError msg), cards)) \<and>
    (\<exists>msg. reorder_card cards index other = (Inl (IndexError msg), cards)) \<and>
    (\<exists>msg. reorder_card cards other index = (Inl (IndexError msg), cards))"
  using assms by (auto simp: update_card_def remove_card_def reorder_card_def)

theorem invalid_index_rejected_witness:
  "(\<exists>msg. update_card [[(''content'', Seq [Literal ''one''])]] 1 None (Some ''T'') None None None
       = (Inl (IndexError msg), [[(''content'', Seq [Literal ''one''])]])) \<and>
   (\<exists>msg. remove_card [[(''content'', Seq [Literal ''one''])]] 1
       = (Inl (IndexError msg), [[(''content'', Seq [Literal ''one''])]])) \<and>
   (\<exists>msg. reorder_card [[(''content'', Seq [Literal ''one''])]] 1 0
       = (Inl (IndexError msg), [[(''content'', Seq [Literal ''one''])]])) \<and>
   (\<exists>msg. reorder_card [[(''content'', Seq [Literal ''one''])]] 0 1
       = (Inl (IndexError msg), [[(''content'', Seq [Literal ''one''])]]))"
  using invalid_index_rejected[of 1 "[[(''content'', Seq [Literal ''one''])]]"
      None "Some ''T''" None None None 0]
  by simp

text \<open>
  Claim C6. \<^verbatim>\<open>add_card\<close> returns the new card and the list with that card appended. The card
  has, in this order, a \<open>logo\<close> when the logo is non-empty, \<open>center\<close> and
  \<open>partition\<close> set to true when the flags are true, a \<open>title\<close> when the title
  is non-empty, and always a \<open>content\<close> that is one literal block (the empty block
  when the content is empty).
\<close>
theorem add_card_appends:
  assumes "add_card cards logo title content center partition' = (c, cards')"
  shows "cards' = cards @ [c] \<and>
    c = (if logo \<noteq> [] then [(''logo'', Scalar (Str logo))] else [])
      @ (if center then [(''center'', Scalar (Bool True))] else [])
      @ (if partition' then [(''partition'', Scalar (Bool True))] else [])
      @ (if title \<noteq> [] then [(''title'', Scalar (Str title))] else [])
      @ [(''content'', Seq [Literal content])]"
proof -
  have "add_card cards logo title content center partition' =
    ((if logo \<noteq> [] then [(''logo'', Scalar (Str logo))] else [])
      @ (if center then [(''center'', Scalar (Bool True))] else [])
      @ (if partition' then [(''partition'', Scalar (Bool True))] else [])
      @ (if title \<noteq> [] then [(''title'', Scalar (Str title))] else [])
      @ [(''content'', Seq [Literal content])],
     cards @ [(if logo \<noteq> [] then [(''logo'', Scalar (Str logo))] else [])
      @ (if center then [(''center'', Scalar (Bool True))] else [])
      @ (if partition' then [(''partition'', Scalar (Bool True))] else [])
      @ (if title \<noteq> [] then [(''title'', Scalar (Str title))] else [])
      @ [(''content'', Seq [Literal content])]])"
    by (simp add: add_card_def Let_def)
  then show ?thesis using assms by simp
qed

theorem add_card_appends_witness:
  "add_card [[(''content'', Seq [Literal ''first''])]] '''' ''News'' '''' True False
     = ([(''center'', Scalar (Bool True)), (''title'', Scalar (Str ''News'')),
         (''content'', Seq [Literal ''''])],
        [[(''content'', Seq [Literal ''first''])],
         [(''center'', Scalar (Bool True)), (''title'', Scalar (Str ''News'')),
          (''content'', Seq [Literal ''''])]])"
  using add_card_appends[OF surjective_pairing,
      of "[[(''content'', Seq [Literal ''first''])]]" "''''" "''News''" "''''" True False]
  by (simp add: prod_eq_iff)

text \<open>
  Claim C7. If every card of the list is well formed, then so is every card of the list
  after \<^verbatim>\<open>add_card\<close>, \<^verbatim>\<open>update_card\<close>, \<^verbatim>\<open>remove_card\<close> or \<^verbatim>\<open>reorder_card\<close>, whatever the arguments
  and whether or not the call raises.
\<close>
theorem cards_ok_preserved:
  assumes "cards_ok cards"
  shows "cards_ok (snd (add_card cards logo title content center partition')) \<and>
    cards_ok (snd (update_card cards index ulogo utitle ucontent ucenter upartition)) \<and>
    cards_ok (snd (remove_card cards index)) \<and>
    cards_ok (snd (reorder_card cards from_idx to_idx))"
  using assms cards_ok_add_card cards_ok_update_card cards_ok_remove_card cards_ok_reorder_card
  by blast

theorem cards_ok_preserved_witness:
  "cards_ok [[(''center'', Scalar (Bool True)), (''content'', Seq [Literal ''one''])]] \<and>
   cards_ok (snd (update_card [[(''center'', Scalar (Bool True)), (''content'', Seq [Literal ''one''])]]
      0 None None (Some ''two'') (Some False) (Some True)))"
proof -
  have ok: "cards_ok [[(''center'', Scalar (Bool True)), (''content'', Seq [Literal ''one''])]]"
    by (simp add: cards_ok_def card_ok_def getitem_def)
  show ?thesis
    using ok cards_ok_preserved[OF ok, of "''''" "''''" "''''" False False 0
        None None "Some ''two''" "Some False" "Some True" 0 0]
    by simp
qed



section \<open>Properties of \<^verbatim>\<open>git_publish\<close>\<close>

lemma subprocess_run_failed:
  "env (executed w) args cwd = Exited n out \<Longrightarrow> n \<noteq> 0 \<Longrightarrow>
   subprocess_run env args cwd True w =
     (Inl (CalledProcessError n args None None),
      w\<lparr>executed := executed w @ [(args, cwd)], console := console w @ out\<rparr>)"
  by (simp add: subprocess_run_def)

lemma subprocess_run_ok:
  "env (executed w) args cwd = Exited 0 out \<Longrightarrow>
   subprocess_run env args cwd True w =
     (Inr (CompletedProcess args 0 None None),
      w\<lparr>executed := executed w @ [(args, cwd)], console := console w @ out\<rparr>)"
  by (simp add: subprocess_run_def)

lemma subprocess_run_not_started:
  "env (executed w) args cwd = Not_started reason \<Longrightarrow>
   subprocess_run env args cwd True w = (Inl (OSError reason), w)"
  by (simp add: subprocess_run_def)

lemma git_publish_stage_failed:
  assumes "env (executed w) [''git'', ''add'', ''_data/cards.yml''] root = Exited n out" "n \<noteq> 0"
  shows "git_publish env root message w =
    (Inl (CalledProcessError n [''git'', ''add'', ''_data/cards.yml''] None None),
     w\<lparr>executed := executed w @ [([''git'', ''add'', ''_data/cards.yml''], root)],
       console := console w @ out\<rparr>)"
  using subprocess_run_failed[where env=env and w=w, OF assms]
  by (simp add: git_publish_def)

lemma git_publish_commit_failed:
  assumes "env (executed w) [''git'', ''add'', ''_data/cards.yml''] root = Exited 0 out1"
    and "env (executed w @ [([''git'', ''add'', ''_data/cards.yml''], root)])
           [''git'', ''commit'', ''-m'', message] root = Exited n out" "n \<noteq> 0"
  shows "git_publish env root message w =
    (Inl (CalledProcessError n [''git'', ''commit'', ''-m'', message] None None),
     w\<lparr>executed := executed w @ [([''git'', ''add'', ''_data/cards.yml''], root),
                                   ([''git'', ''commit'', ''-m'', message], root)],
       console := console w @ out1 @ out\<rparr>)"
proof -
  let ?w1 = "w\<lparr>executed := executed w @ [([''git'', ''add'', ''_data/cards.yml''], root)],
       console := console w @ out1\<rparr>"
  have 1: "subprocess_run env [''git'', ''add'', ''_data/cards.yml''] root True w
      = (Inr (CompletedProcess [''git'', ''add'', ''_data/cards.yml''] 0 None None), ?w1)"
    using assms(1) by (rule subprocess_run_ok[where env=env and w=w])
  have "env (executed ?w1) [''git'', ''commit'', ''-m'', message] root = Exited n out"
    using assms(2) by simp
  from subprocess_run_failed[where env=env and w="?w1", OF this assms(3)] 1 show ?thesis
    by (simp add: git_publish_def)
qed

lemma git_publish_push:
  assumes "env (executed w) [''git'', ''add'', ''_data/cards.yml''] root = Exited 0 out1"
    and "env (executed w @ [([''git'', ''add'', ''_data/cards.yml''], root)])
           [''git'', ''commit'', ''-m'', message] root = Exited 0 out2"
    and "env (executed w @ [([''git'', ''add'', ''_data/cards.yml''], root),
                            ([''git'', ''commit'', ''-m'', message], root)])
           [''git'', ''push''] root = Exited n out"
  shows "git_publish env root message w =
    (if n \<noteq> 0 then Inl (CalledProcessError n [''git'', ''push''] None None) else Inr (),
     w\<lparr>executed := executed w @ [([''git'', ''add'', ''_data/cards.yml''], root),
                                   ([''git'', ''commit'', ''-m'', message], root),
                                   ([''git'', ''push''], root)],
       console := console w @ out1 @ out2 @ out\<rparr>)"
proof -
  let ?w1 = "w\<lparr>executed := executed w @ [([''git'', ''add'', ''_data/cards.yml''], root)],
       console := console w @ out1\<rparr>"
  let ?w2 = "?w1\<lparr>executed := executed ?w1 @ [([''git'', ''commit'', ''-m'', message], root)],
       console := console ?w1 @ out2\<rparr>"
  have 1: "subprocess_run env [''git'', ''add'', ''_data/cards.yml''] root True w
      = (Inr (CompletedProcess [''git'', ''add'', ''_data/cards.yml''] 0 None None), ?w1)"
    using assms(1) by (rule subprocess_run_ok[where env=env and w=w])
  have "env (executed ?w1) [''git'', ''commit'', ''-m'', message] root = Exited 0 out2"
    using assms(2) by simp
  then have 2: "subprocess_run env [''git'', ''commit'', ''-m'', message] root True ?w1
      = (Inr (CompletedProcess [''git'', ''commit'', ''-m'', message] 0 None None), ?w2)"
    by (rule subprocess_run_ok[where env=env and w="?w1"])
  have 3: "env (executed ?w2) [''git'', ''push''] root = Exited n out"
    using assms(3) by simp
  show ?thesis
  proof (cases "n = 0")
    case True
    with 3 have "env (executed ?w2) [''git'', ''push''] root = Exited 0 out" by simp
    from subprocess_run_ok[where env=env and w="?w2", OF this] 1 2 True show ?thesis
      by (simp add: git_publish_def)
  next
    case False
    from subprocess_run_failed[where env=env and w="?w2", OF 3 False] 1 2 False show ?thesis
      by (simp add: git_publish_def)
  qed
qed

lemma executed_subprocess_run:
  "executed (snd (subprocess_run env args cwd check w)) = executed w \<or>
   executed (snd (subprocess_run env args cwd check w)) = executed w @ [(args, cwd)]"
  by (simp add: subprocess_run_def Let_def split: outcome.splits)

lemma git_publish_not_started:
  "env (executed w) [''git'', ''add'', ''_data/cards.yml''] root = Not_started reason \<Longrightarrow>
   git_publish env root message w = (Inl (OSError reason), w)"
  "env (executed w) [''git'', ''add'', ''_data/cards.yml''] root = Exited 0 out1 \<Longrightarrow>
   env (executed w @ [([''git'', ''add'', ''_data/cards.yml''], root)])
           [''git'', ''commit'', ''-m'', message] root = Not_started reason \<Longrightarrow>
   git_publish env root message w = (Inl (OSError reason),
     w\<lparr>executed := executed w @ [([''git'', ''add'', ''_data/cards.yml''], root)],
       console := console w @ out1\<rparr>)"
  "env (executed w) [''git'', ''add'', ''_data/cards.yml''] root = Exited 0 out1 \<Longrightarrow>
   env (executed w @ [([''git'', ''add'', ''_data/cards.yml''], root)])
           [''git'', ''commit'', ''-m'', message] root = Exited 0 out2 \<Longrightarrow>
   env (executed w @ [([''git'', ''add'', ''_data/cards.yml''], root),
                            ([''git'', ''commit'', ''-m'', message], root)])
           [''git'', ''push''] root = Not_started reason \<Longrightarrow>
   git_publish env root message w = (Inl (OSError reason),
     w\<lparr>executed := executed w @ [([''git'', ''add'', ''_data/cards.yml''], root),
                                   ([''git'', ''commit'', ''-m'', message], root)],
       console := console w @ out1 @ out2\<rparr>)"
  by (simp_all add: git_publish_def subprocess_run_def)

section \<open>Properties of the text functions\<close>

lemma strip_rstrip: "strip s = rstrip (dropWhile isspace s)"
  by (simp add: strip_def rstrip_def)


lemma rstrip_Cons:
  "rstrip (c # cs) = (if \<forall>x \<in> set (c # cs). isspace x then [] else c # rstrip cs)"
proof (cases "\<forall>x \<in> set cs. isspace x")
  case True
  have e: "dropWhile isspace (rev cs @ [c]) = dropWhile isspace [c]"
    by (rule dropWhile_append2) (use True in auto)
  have "rstrip (c # cs) = rev (dropWhile isspace (rev cs @ [c]))"
    by (simp add: rstrip_def)
  also have "\<dots> = rev (dropWhile isspace [c])" by (simp only: e)
  also have "\<dots> = (if isspace c then [] else [c])" by simp
  finally have l: "rstrip (c # cs) = (if isspace c then [] else [c])" .
  have r: "rstrip cs = []" using True by (simp add: rstrip_def)
  show ?thesis unfolding l r using True by auto
next
  case False
  then obtain x where "x \<in> set (rev cs)" "\<not> isspace x" by auto
  then have "dropWhile isspace (rev cs @ [c]) = dropWhile isspace (rev cs) @ [c]"
    by (rule dropWhile_append1)
  then show ?thesis using False by (simp add: rstrip_def)
qed

lemma rstrip_all_space: "\<forall>x \<in> set s. isspace x \<Longrightarrow> rstrip s = []"
  by (simp add: rstrip_def)



















lemma sub_tags_without_lt: "CHR ''<'' \<notin> set s \<Longrightarrow> sub_tags s = s"
  by (induction s) auto

lemma match_tag_closed:
  "body \<noteq> [] \<Longrightarrow> CHR ''>'' \<notin> set body \<Longrightarrow> match_tag (body @ CHR ''>'' # rest) = Some rest"
proof -
  assume body: "body \<noteq> []" "CHR ''>'' \<notin> set body"
  have "takeWhile (\<lambda>c. c \<noteq> CHR ''>'') (body @ CHR ''>'' # rest) = body"
    using body(2) by (auto simp: takeWhile_tail)
  moreover have "dropWhile (\<lambda>c. c \<noteq> CHR ''>'') (body @ CHR ''>'' # rest) = CHR ''>'' # rest"
    using body(2) by (auto simp: dropWhile_append3)
  ultimately show ?thesis using body(1) by (simp add: match_tag_def)
qed

lemma sub_tags_removes_tag:
  assumes "CHR ''<'' \<notin> set pre" "body \<noteq> []" "CHR ''>'' \<notin> set body"
  shows "sub_tags (pre @ CHR ''<'' # body @ CHR ''>'' # rest) = pre @ sub_tags rest"
  using assms(1) by (induction pre) (auto simp: match_tag_closed[OF assms(2,3)])

lemma sub_spaces_only_blanks: "c \<in> set (sub_spaces s) \<Longrightarrow> isspace c \<Longrightarrow> c = CHR '' ''"
  by (induction s rule: sub_spaces.induct) (auto split: if_splits)

lemma sub_spaces_head:
  "sub_spaces s = [] \<or> hd (sub_spaces s) = (if isspace (hd s) then CHR '' '' else hd s)"
  by (cases s) auto

lemma sub_spaces_no_run:
  "Suc i < length (sub_spaces s) \<Longrightarrow>
   \<not> (isspace (sub_spaces s ! i) \<and> isspace (sub_spaces s ! Suc i))"
proof (induction s arbitrary: i rule: sub_spaces.induct)
  case 1
  then show ?case by simp
next
  case (2 c cs)
  show ?case
  proof (cases "isspace c")
    case True
    let ?t = "dropWhile isspace cs"
    show ?thesis
    proof (cases i)
      case 0
      have "?t = [] \<or> \<not> isspace (hd ?t)" using hd_dropWhile[of isspace cs] by blast
      moreover have "sub_spaces ?t \<noteq> []" using 2(3) True 0 by auto
      ultimately have "\<not> isspace (hd (sub_spaces ?t))"
        using sub_spaces_head[of ?t] by (cases ?t) auto
      then show ?thesis using True 0 \<open>sub_spaces ?t \<noteq> []\<close> by (simp add: hd_conv_nth)
    next
      case (Suc j)
      then show ?thesis using 2(1)[OF True, of j] 2(3) True by simp
    qed
  next
    case False
    show ?thesis
    proof (cases i)
      case 0
      then show ?thesis using False by simp
    next
      case (Suc j)
      then show ?thesis using 2(2)[OF False, of j] 2(3) False by simp
    qed
  qed
qed

lemma strip_trimmed:
  "strip s = [] \<or> (\<not> isspace (hd (strip s)) \<and> \<not> isspace (last (strip s)))"
proof (cases "strip s = []")
  case True
  then show ?thesis by simp
next
  case False
  let ?r = "dropWhile isspace (rev (dropWhile isspace s))"
  have r: "?r \<noteq> []" using False by (simp add: strip_def)
  then have "\<not> isspace (hd ?r)" by (rule hd_dropWhile)
  then have l: "\<not> isspace (last (strip s))" using r by (simp add: strip_def last_rev)
  have "strip s = rstrip (dropWhile isspace s)" by (rule strip_rstrip)
  moreover have "dropWhile isspace s \<noteq> []"
    using False by (auto simp: strip_def dest: set_dropWhileD)
  ultimately have "hd (strip s) = hd (dropWhile isspace s)"
    using False by (cases "dropWhile isspace s") (auto simp: rstrip_Cons split: if_splits)
  moreover have "\<not> isspace (hd (dropWhile isspace s))"
    using \<open>dropWhile isspace s \<noteq> []\<close> by (rule hd_dropWhile)
  ultimately show ?thesis using l by simp
qed

section \<open>The claims about publishing and the preview\<close>

text \<open>
  Claim C8, as the code has it. \<^verbatim>\<open>git_publish\<close> runs \<open>git add\<close>, \<open>git commit\<close> and
  \<open>git push\<close> in this order, each in the site root. The commands executed by a call are
  an initial part of these three; the commit is attempted only after the staging exited
  with status 0 and the push only after the commit did. When a step exits with a non-zero
  status the call raises \<^verbatim>\<open>CalledProcessError\<close> with that status and that step's command,
  and no later step is executed. What the step printed went to the console: the error's
  output and error output are \<^verbatim>\<open>None\<close>.
\<close>

theorem git_publish_steps:
  assumes "git_publish env root message w = (r, w')"
  shows "(executed w' = executed w \<or>
      executed w' = executed w @ [([''git'', ''add'', ''_data/cards.yml''], root)] \<or>
      executed w' = executed w @ [([''git'', ''add'', ''_data/cards.yml''], root),
                                  ([''git'', ''commit'', ''-m'', message], root)] \<or>
      executed w' = executed w @ [([''git'', ''add'', ''_data/cards.yml''], root),
                                  ([''git'', ''commit'', ''-m'', message], root),
                                  ([''git'', ''push''], root)]) \<and>
    (\<forall>rest. executed w' = executed w @ ([''git'', ''add'', ''_data/cards.yml''], root) # 
                                        ([''git'', ''commit'', ''-m'', message], root) # rest \<longrightarrow>
       (\<exists>out. env (executed w) [''git'', ''add'', ''_data/cards.yml''] root = Exited 0 out)) \<and>
    (executed w' = executed w @ [([''git'', ''add'', ''_data/cards.yml''], root),
                                 ([''git'', ''commit'', ''-m'', message], root),
                                 ([''git'', ''push''], root)] \<longrightarrow>
       (\<exists>out. env (executed w @ [([''git'', ''add'', ''_data/cards.yml''], root)])
                 [''git'', ''commit'', ''-m'', message] root = Exited 0 out)) \<and>
    (\<forall>n out. env (executed w) [''git'', ''add'', ''_data/cards.yml''] root = Exited n out \<and> n \<noteq> 0 \<longrightarrow>
       r = Inl (CalledProcessError n [''git'', ''add'', ''_data/cards.yml''] None None) \<and>
       executed w' = executed w @ [([''git'', ''add'', ''_data/cards.yml''], root)] \<and>
       console w' = console w @ out) \<and>
    (\<forall>out1 n out.
       env (executed w) [''git'', ''add'', ''_data/cards.yml''] root = Exited 0 out1 \<and>
       env (executed w @ [([''git'', ''add'', ''_data/cards.yml''], root)])
           [''git'', ''commit'', ''-m'', message] root = Exited n out \<and> n \<noteq> 0 \<longrightarrow>
       r = Inl (CalledProcessError n [''git'', ''commit'', ''-m'', message] None None) \<and>
       executed w' = executed w @ [([''git'', ''add'', ''_data/cards.yml''], root),
                                   ([''git'', ''commit'', ''-m'', message], root)] \<and>
       console w' = console w @ out1 @ out) \<and>
    (\<forall>out1 out2 n out.
       env (executed w) [''git'', ''add'', ''_data/cards.yml''] root = Exited 0 out1 \<and>
       env (executed w @ [([''git'', ''add'', ''_data/cards.yml''], root)])
           [''git'', ''commit'', ''-m'', message] root = Exited 0 out2 \<and>
       env (executed w @ [([''git'', ''add'', ''_data/cards.yml''], root),
                          ([''git'', ''commit'', ''-m'', message], root)])
           [''git'', ''push''] root = Exited n out \<longrightarrow>
       r = (if n \<noteq> 0 then Inl (CalledProcessError n [''git'', ''push''] None None) else Inr ()) \<and>
       executed w' = executed w @ [([''git'', ''add'', ''_data/cards.yml''], root),
                                   ([''git'', ''commit'', ''-m'', message], root),
                                   ([''git'', ''push''], root)] \<and>
       console w' = console w @ out1 @ out2 @ out)"
proof -
  let ?a = "[''git'', ''add'', ''_data/cards.yml'']"
  let ?c = "[''git'', ''commit'', ''-m'', message]"
  let ?p = "[''git'', ''push'']"
  let ?h1 = "executed w @ [(?a, root)]"
  let ?h2 = "executed w @ [(?a, root), (?c, root)]"
  consider (A) reason where "env (executed w) ?a root = Not_started reason"
    | (B) n out where "env (executed w) ?a root = Exited n out" "n \<noteq> 0"
    | (C) out1 reason where "env (executed w) ?a root = Exited 0 out1"
        "env ?h1 ?c root = Not_started reason"
    | (D) out1 n out where "env (executed w) ?a root = Exited 0 out1"
        "env ?h1 ?c root = Exited n out" "n \<noteq> 0"
    | (E) out1 out2 reason where "env (executed w) ?a root = Exited 0 out1"
        "env ?h1 ?c root = Exited 0 out2" "env ?h2 ?p root = Not_started reason"
    | (F) out1 out2 n out where "env (executed w) ?a root = Exited 0 out1"
        "env ?h1 ?c root = Exited 0 out2" "env ?h2 ?p root = Exited n out"
  proof (cases "env (executed w) ?a root")
    case (Not_started reason)
    then show ?thesis using A by blast
  next
    case 1: (Exited n1 out1)
    show ?thesis
    proof (cases "n1 = 0")
      case False
      then show ?thesis using 1 B by blast
    next
      case True
      show ?thesis
      proof (cases "env ?h1 ?c root")
        case (Not_started reason)
        then show ?thesis using 1 True C by blast
      next
        case 2: (Exited n2 out2)
        show ?thesis
        proof (cases "n2 = 0")
          case False
          then show ?thesis using 1 True 2 D by blast
        next
          case n2: True
          show ?thesis
          proof (cases "env ?h2 ?p root")
            case (Not_started reason)
            then show ?thesis using 1 True 2 n2 E by blast
          next
            case (Exited n3 out3)
            then show ?thesis using 1 True 2 n2 F by blast
          qed
        qed
      qed
    qed
  qed
  then show ?thesis
  proof cases
    case A
    from git_publish_not_started(1)[where env=env and w=w, OF A] assms have "r = Inl (OSError reason)" "w' = w" by simp_all
    then show ?thesis using A by simp
  next
    case B
    from git_publish_stage_failed[where env=env and w=w, OF B] assms
    have "r = Inl (CalledProcessError n ?a None None)"
      "w' = w\<lparr>executed := ?h1, console := console w @ out\<rparr>" by simp_all
    then show ?thesis using B by simp
  next
    case C
    from git_publish_not_started(2)[where env=env and w=w, OF C] assms
    have "r = Inl (OSError reason)" "w' = w\<lparr>executed := ?h1, console := console w @ out1\<rparr>"
      by simp_all
    then show ?thesis using C by simp
  next
    case D
    from git_publish_commit_failed[where env=env and w=w, OF D] assms
    have "r = Inl (CalledProcessError n ?c None None)"
      "w' = w\<lparr>executed := ?h2, console := console w @ out1 @ out\<rparr>" by simp_all
    then show ?thesis using D by simp
  next
    case E
    from git_publish_not_started(3)[where env=env and w=w, OF E] assms
    have "r = Inl (OSError reason)" "w' = w\<lparr>executed := ?h2, console := console w @ out1 @ out2\<rparr>"
      by simp_all
    then show ?thesis using E by simp
  next
    case F
    from git_publish_push[where env=env and w=w, OF F] assms
    have "r = (if n \<noteq> 0 then Inl (CalledProcessError n ?p None None) else Inr ())"
      "w' = w\<lparr>executed := executed w @ [(?a, root), (?c, root), (?p, root)],
              console := console w @ out1 @ out2 @ out\<rparr>" by simp_all
    then show ?thesis using F by simp
  qed
qed

theorem git_publish_steps_witness:
  "git_publish
     (\<lambda>h args cwd. if args = [''git'', ''commit'', ''-m'', ''Update cards'']
        then Exited 1 ''nothing to commit'' else Exited 0 '''')
     ''/site'' ''Update cards'' \<lparr>executed = [], console = ''''\<rparr>
   = (Inl (CalledProcessError 1 [''git'', ''commit'', ''-m'', ''Update cards''] None None),
      \<lparr>executed = [([''git'', ''add'', ''_data/cards.yml''], ''/site''),
                    ([''git'', ''commit'', ''-m'', ''Update cards''], ''/site'')],
       console = ''nothing to commit''\<rparr>)"
proof -
  let ?env = "\<lambda>(h :: (string list \<times> string) list) (args :: string list) (cwd :: string).
        if args = [''git'', ''commit'', ''-m'', ''Update cards'']
        then Exited 1 ''nothing to commit'' else Exited 0 ''''"
  let ?w = "\<lparr>executed = [], console = ''''\<rparr>"
  let ?res = "git_publish ?env ''/site'' ''Update cards'' ?w"
  have "fst ?res = Inl (CalledProcessError 1 [''git'', ''commit'', ''-m'', ''Update cards''] None None)
      \<and> executed (snd ?res) = executed ?w @ [([''git'', ''add'', ''_data/cards.yml''], ''/site''),
                    ([''git'', ''commit'', ''-m'', ''Update cards''], ''/site'')]
      \<and> console (snd ?res) = console ?w @ '''' @ ''nothing to commit''"
    using git_publish_steps[where env="?env" and w="?w" and root="''/site''"
        and message="''Update cards''", OF surjective_pairing]
    by simp
  then show ?thesis by (simp add: prod_eq_iff)
qed

text \<open>
  Claim C8 as stated also has the failing step's captured output surfaced to the caller.
  With a commit step that prints \<open>nothing to commit\<close> and exits with status 1, the
  error that reaches the caller holds the command and the status, but not that output.
\<close>

theorem git_publish_output_not_surfaced:
  "(\<lambda>h args cwd. if args = [''git'', ''commit'', ''-m'', ''Update cards'']
        then Exited 1 ''nothing to commit'' else Exited 0 '''')
     [([''git'', ''add'', ''_data/cards.yml''], ''/site'')]
     [''git'', ''commit'', ''-m'', ''Update cards''] ''/site'' = Exited 1 ''nothing to commit'' \<and>
   fst (git_publish
     (\<lambda>h args cwd. if args = [''git'', ''commit'', ''-m'', ''Update cards'']
        then Exited 1 ''nothing to commit'' else Exited 0 '''')
     ''/site'' ''Update cards'' \<lparr>executed = [], console = ''''\<rparr>)
     = Inl (CalledProcessError 1 [''git'', ''commit'', ''-m'', ''Update cards''] None None) \<and>
   \<not> spec_surfaces_failure
     (fst (git_publish
       (\<lambda>h args cwd. if args = [''git'', ''commit'', ''-m'', ''Update cards'']
          then Exited 1 ''nothing to commit'' else Exited 0 '''')
       ''/site'' ''Update cards'' \<lparr>executed = [], console = ''''\<rparr>))
     [''git'', ''commit'', ''-m'', ''Update cards''] 1 ''nothing to commit''"
  by (simp add: git_publish_def subprocess_run_def spec_surfaces_failure_def Let_def)



end
